theory Spec2Isabelle
  imports Main "HOL-Library.Multiset"
begin

section \<open>Data model (src/src/types.ts)\<close>

datatype Suit = hearts | diamonds | clubs | spades

datatype Rank = RA | R2 | R3 | R4 | R5 | R6 | R7 | R8 | R9 | R10 | RJ | RQ | RK

text \<open>
  \<^verbatim>\<open>CardData\<close> has the fields \<^verbatim>\<open>id\<close>, \<^verbatim>\<open>suit\<close> and \<^verbatim>\<open>rank\<close>; the field \<^verbatim>\<open>id\<close> is
  called \<open>cid\<close> here, since \<open>id\<close> is the identity function of HOL.
\<close>

record CardData =
  cid :: string
  suit :: Suit
  rank :: Rank

datatype GamePhase = dealing | playing | gameOver

datatype Turn = player | ai

definition SUITS :: "Suit list" where
  "SUITS = [hearts, diamonds, clubs, spades]"

definition RANKS :: "Rank list" where
  "RANKS = [RA, R2, R3, R4, R5, R6, R7, R8, R9, R10, RJ, RQ, RK]"

text \<open>The string values of the two union types, as they appear in the template of the id.\<close>

fun suitStr :: "Suit \<Rightarrow> string" where
  "suitStr hearts = ''hearts''"
| "suitStr diamonds = ''diamonds''"
| "suitStr clubs = ''clubs''"
| "suitStr spades = ''spades''"

fun rankStr :: "Rank \<Rightarrow> string" where
  "rankStr RA = ''A''"
| "rankStr R2 = ''2''"
| "rankStr R3 = ''3''"
| "rankStr R4 = ''4''"
| "rankStr R5 = ''5''"
| "rankStr R6 = ''6''"
| "rankStr R7 = ''7''"
| "rankStr R8 = ''8''"
| "rankStr R9 = ''9''"
| "rankStr R10 = ''10''"
| "rankStr RJ = ''J''"
| "rankStr RQ = ''Q''"
| "rankStr RK = ''K''"

section \<open>Deck construction and shuffling (src/src/App.tsx, lines 31 to 48)\<close>

definition mkCard :: "Suit \<Rightarrow> Rank \<Rightarrow> CardData" where
  "mkCard s r = \<lparr>cid = rankStr r @ ''-'' @ suitStr s, suit = s, rank = r\<rparr>"

definition createDeck :: "CardData list" where
  "createDeck = concat (map (\<lambda>s. map (\<lambda>r. mkCard s r) RANKS) SUITS)"

text \<open>
  \<^verbatim>\<open>Math.floor(Math.random() * n)\<close> is, for \<open>n > 0\<close>, some index below \<open>n\<close>. The
  random source is a parameter of the model: a natural number \<open>r\<close>, read modulo \<open>n\<close>, so
  that every index below \<open>n\<close> arises (from \<open>r\<close> equal to that index) and no other value does.
\<close>

definition randomIndex :: "nat \<Rightarrow> nat \<Rightarrow> nat" where
  "randomIndex r n = r mod n"

text \<open>
  The loop of \<^verbatim>\<open>shuffle\<close> runs \<open>i\<close> from the last index down to 1 and swaps the
  elements at \<open>i\<close> and \<open>j\<close>; \<open>rnd i\<close> is the random source of the iteration with index \<open>i\<close>.
\<close>

fun shuffleLoop :: "(nat \<Rightarrow> nat) \<Rightarrow> nat \<Rightarrow> 'a list \<Rightarrow> 'a list" where
  "shuffleLoop rnd 0 newDeck = newDeck"
| "shuffleLoop rnd (Suc k) newDeck =
     (let i = Suc k;
          j = randomIndex (rnd i) (i + 1)
      in shuffleLoop rnd k (newDeck[i := newDeck ! j, j := newDeck ! i]))"

definition shuffle :: "(nat \<Rightarrow> nat) \<Rightarrow> 'a list \<Rightarrow> 'a list" where
  "shuffle rnd deck0 = shuffleLoop rnd (length deck0 - 1) deck0"

section \<open>The state of the component (src/src/App.tsx, lines 111 to 120)\<close>

text \<open>
  The status line is a string of the source; the model keeps which of the source's
  messages it is, with the values interpolated into it.
\<close>

datatype Message =
    MsgWelcome
  | MsgYourTurn
  | MsgDeckEmpty
  | MsgYouDrew
  | MsgYouWin
  | MsgAiThinking
  | MsgAiEight Suit
  | MsgAiPlayed Suit Rank
  | MsgAiWins
  | MsgYouChose Suit
  | MsgAiDrew
  | MsgAiSkip

record GameState =
  deck :: "CardData list"
  playerHand :: "CardData list"
  aiHand :: "CardData list"
  discardPile :: "CardData list"
  currentSuit :: "Suit option"
  turn :: Turn
  phase :: GamePhase
  showSuitPicker :: bool
  pendingEightCard :: "CardData option"
  message :: Message

definition initialState :: GameState where
  "initialState = \<lparr>deck = [], playerHand = [], aiHand = [], discardPile = [],
     currentSuit = None, turn = player, phase = dealing, showSuitPicker = False,
     pendingEightCard = None, message = MsgWelcome\<rparr>"

text \<open>
  \<^verbatim>\<open>initGame\<close>: \<^verbatim>\<open>splice(0, 8)\<close> twice removes the first eight cards each time,
  \<^verbatim>\<open>pop()\<close> removes the last card of what remains. The function \<open>deal\<close> is the part of
  \<^verbatim>\<open>initGame\<close> after the shuffle. \<^verbatim>\<open>showSuitPicker\<close> and \<^verbatim>\<open>pendingEightCard\<close> are
  not set by \<^verbatim>\<open>initGame\<close>.
\<close>

definition deal :: "CardData list \<Rightarrow> GameState \<Rightarrow> GameState" where
  "deal fullDeck s =
     (let pHand = take 8 fullDeck;
          rest1 = drop 8 fullDeck;
          aHand = take 8 rest1;
          rest2 = drop 8 rest1;
          firstDiscard = last rest2;
          rest3 = butlast rest2
      in s\<lparr>deck := rest3, playerHand := pHand, aiHand := aHand,
           discardPile := [firstDiscard], currentSuit := Some (suit firstDiscard),
           turn := player, phase := playing, message := MsgYourTurn\<rparr>)"

definition initGame :: "(nat \<Rightarrow> nat) \<Rightarrow> GameState \<Rightarrow> GameState" where
  "initGame rnd s = deal (shuffle rnd createDeck) s"

section \<open>Move validation (src/src/App.tsx, lines 144 to 151)\<close>

text \<open>
  \<^verbatim>\<open>topDiscard\<close> is \<^verbatim>\<open>discardPile[discardPile.length - 1]\<close>, which is \<^verbatim>\<open>undefined\<close>
  for an empty pile. The parameter \<^verbatim>\<open>card\<close> of the source's functions is written \<open>c\<close>
  (\<open>card\<close> is the cardinality of HOL). \<^verbatim>\<open>isValidMove\<close> reads \<^verbatim>\<open>currentSuit\<close> and \<^verbatim>\<open>topDiscard\<close> of the
  render it belongs to; reading \<^verbatim>\<open>topDiscard.rank\<close> of an undefined top raises a
  TypeError, which is the value \<open>None\<close>.
\<close>

definition topDiscard :: "GameState \<Rightarrow> CardData option" where
  "topDiscard s = (if discardPile s = [] then None else Some (last (discardPile s)))"

definition isValidMove :: "GameState \<Rightarrow> CardData \<Rightarrow> bool option" where
  "isValidMove s c =
     (if rank c = R8 then Some True
      else if (case currentSuit s of None \<Rightarrow> False | Some cs \<Rightarrow> suit c = cs) then Some True
      else (case topDiscard s of
              None \<Rightarrow> None
            | Some t \<Rightarrow> if rank c = rank t then Some True else Some False))"

section \<open>Delayed actions\<close>

text \<open>
  A handler of the source runs in the closure of one render of the component: it reads
  the state variables of that render, while an updater function passed to a setter
  (\<^verbatim>\<open>setAiHand(prev => ...)\<close>) is applied to the state at the time of the update. The
  functions below that can run in an older closure therefore take two states: the
  render \<open>cl\<close> whose closure runs, and the state \<open>s\<close> that the updates are applied to.

  \<^verbatim>\<open>setTimeout\<close> is modelled by returning the scheduled action with its delay in
  milliseconds: setting the turn to the opponent, or the opponent's call of
  \<^verbatim>\<open>playCard\<close> in the closure of the render that scheduled it.
\<close>

datatype Timeout =
    SetTurnAi nat
  | PlayCardAi nat GameState CardData

section \<open>Playing a card (src/src/App.tsx, lines 174 to 238)\<close>

text \<open>
  \<^verbatim>\<open>suitCounts\<close> is an object whose keys are created in the order of their first
  occurrence, and \<^verbatim>\<open>Object.keys\<close> lists them in that order: an association list.
  \<^verbatim>\<open>Array.prototype.sort\<close> is stable, as \<open>sort_key\<close> is; the comparator
  \<^verbatim>\<open>suitCounts[b] - suitCounts[a]\<close> sorts by descending count.
\<close>

fun bump :: "Suit \<Rightarrow> (Suit \<times> nat) list \<Rightarrow> (Suit \<times> nat) list" where
  "bump k [] = [(k, 1)]"
| "bump k ((k', n) # acc) = (if k = k' then (k', n + 1) # acc else (k', n) # bump k acc)"

definition suitCounts :: "CardData list \<Rightarrow> CardData \<Rightarrow> (Suit \<times> nat) list" where
  "suitCounts hand c =
     foldl (\<lambda>acc x. if cid x \<noteq> cid c then bump (suit x) acc else acc) [] hand"

definition bestSuit :: "CardData list \<Rightarrow> CardData \<Rightarrow> Suit" where
  "bestSuit hand c =
     (case sort_key (\<lambda>kv. - int (snd kv)) (suitCounts hand c) of
        [] \<Rightarrow> hearts
      | kv # _ \<Rightarrow> fst kv)"

definition playCard :: "GameState \<Rightarrow> CardData \<Rightarrow> bool \<Rightarrow> GameState \<Rightarrow> GameState" where
  "playCard cl c isPlayer s =
     (if isPlayer then
        (if rank c = R8 then s\<lparr>pendingEightCard := Some c, showSuitPicker := True\<rparr>
         else
           (let s1 = s\<lparr>playerHand := filter (\<lambda>x. cid x \<noteq> cid c) (playerHand s),
                       discardPile := discardPile s @ [c],
                       currentSuit := Some (suit c)\<rparr>
            in if length (playerHand cl) = 1
               then s1\<lparr>phase := gameOver, message := MsgYouWin\<rparr>
               else s1\<lparr>turn := ai, message := MsgAiThinking\<rparr>))
      else
        (let s1 = s\<lparr>aiHand := filter (\<lambda>x. cid x \<noteq> cid c) (aiHand s),
                    discardPile := discardPile s @ [c]\<rparr>;
             s2 = (if rank c = R8
                   then (let best = bestSuit (aiHand cl) c
                         in s1\<lparr>currentSuit := Some best, message := MsgAiEight best\<rparr>)
                   else s1\<lparr>currentSuit := Some (suit c),
                           message := MsgAiPlayed (suit c) (rank c)\<rparr>)
         in if length (aiHand cl) = 1
            then s2\<lparr>phase := gameOver, message := MsgAiWins\<rparr>
            else s2\<lparr>turn := player\<rparr>))"

definition handleSuitPick :: "Suit \<Rightarrow> GameState \<Rightarrow> GameState" where
  "handleSuitPick su s =
     (case pendingEightCard s of
        None \<Rightarrow> s
      | Some p \<Rightarrow>
          (let s1 = s\<lparr>playerHand := filter (\<lambda>x. cid x \<noteq> cid p) (playerHand s),
                      discardPile := discardPile s @ [p],
                      currentSuit := Some su,
                      pendingEightCard := None,
                      showSuitPicker := False\<rparr>
           in if length (playerHand s) = 1
              then s1\<lparr>phase := gameOver, message := MsgYouWin\<rparr>
              else s1\<lparr>turn := ai, message := MsgYouChose su\<rparr>))"

section \<open>Drawing (src/src/App.tsx, lines 153 to 172)\<close>

text \<open>
  The result is the new state with the actions scheduled by \<^verbatim>\<open>setTimeout\<close>, or
  \<open>None\<close> when \<^verbatim>\<open>isValidMove\<close> raises.
\<close>

definition handleDraw :: "GameState \<Rightarrow> (GameState \<times> Timeout list) option" where
  "handleDraw s =
     (if turn s \<noteq> player \<or> phase s \<noteq> playing \<or> showSuitPicker s then Some (s, [])
      else if length (deck s) = 0 then Some (s\<lparr>message := MsgDeckEmpty\<rparr>, [SetTurnAi 1500])
      else
        (let newDeck = butlast (deck s);
             drawnCard = last (deck s);
             s1 = s\<lparr>deck := newDeck, playerHand := playerHand s @ [drawnCard],
                     message := MsgYouDrew\<rparr>
         in case isValidMove s drawnCard of
              None \<Rightarrow> None
            | Some v \<Rightarrow> Some (s1, if \<not> v then [SetTurnAi 1000] else [])))"

section \<open>The opponent's turn (src/src/App.tsx, lines 241 to 276)\<close>

text \<open>\<^verbatim>\<open>aiHand.filter(isValidMove)\<close>; it raises when a call of \<^verbatim>\<open>isValidMove\<close> does.\<close>

fun filterValid :: "GameState \<Rightarrow> CardData list \<Rightarrow> CardData list option" where
  "filterValid cl [] = Some []"
| "filterValid cl (x # xs) =
     (case isValidMove cl x of
        None \<Rightarrow> None
      | Some v \<Rightarrow>
          (case filterValid cl xs of
             None \<Rightarrow> None
           | Some ys \<Rightarrow> Some (if v then x # ys else ys)))"

definition cardToPlay :: "CardData list \<Rightarrow> nat \<Rightarrow> CardData" where
  "cardToPlay playableCards r =
     (let nonEight = filter (\<lambda>x. rank x \<noteq> R8) playableCards
      in if length nonEight > 0
         then nonEight ! randomIndex r (length nonEight)
         else playableCards ! 0)"

text \<open>
  The callback of the timer of the effect, in the closure \<open>cl\<close> of the render that set
  the timer, with the random source \<open>r\<close> of the choice among the playable cards. The
  condition \<^verbatim>\<open>turn === 'ai' && phase === 'playing'\<close> is checked when the timer is set.
\<close>

definition aiTurn :: "GameState \<Rightarrow> nat \<Rightarrow> GameState \<Rightarrow> (GameState \<times> Timeout list) option" where
  "aiTurn cl r s =
     (case filterValid cl (aiHand cl) of
        None \<Rightarrow> None
      | Some playableCards \<Rightarrow>
          if length playableCards > 0
          then Some (playCard cl (cardToPlay playableCards r) False s, [])
          else if length (deck cl) > 0
          then
            (let newDeck = butlast (deck cl);
                 drawnCard = last (deck cl);
                 s1 = s\<lparr>deck := newDeck, aiHand := aiHand s @ [drawnCard],
                         message := MsgAiDrew\<rparr>
             in case isValidMove cl drawnCard of
                  None \<Rightarrow> None
                | Some v \<Rightarrow>
                    if v then Some (s1, [PlayCardAi 1000 cl drawnCard])
                    else Some (s1\<lparr>turn := player\<rparr>, []))
          else Some (s\<lparr>message := MsgAiSkip, turn := player\<rparr>, []))"

section \<open>The presentation layer's calls and the runs of the component\<close>

text \<open>
  A card of the player's hand is rendered with
  \<^verbatim>\<open>isPlayable = turn === 'player' && phase === 'playing' && isValidMove(card) && !showSuitPicker\<close>
  and reacts to a click with \<^verbatim>\<open>playCard(card, true)\<close> only when it is playable
  (lines 75 and 381 to 386).
\<close>

definition isPlayable :: "GameState \<Rightarrow> CardData \<Rightarrow> bool option" where
  "isPlayable s c =
     (if turn s = player \<and> phase s = playing
      then (case isValidMove s c of
              None \<Rightarrow> None
            | Some v \<Rightarrow> Some (v \<and> \<not> showSuitPicker s))
      else Some False)"

definition clickCard :: "CardData \<Rightarrow> GameState \<Rightarrow> GameState option" where
  "clickCard c s =
     (case isPlayable s c of
        None \<Rightarrow> None
      | Some v \<Rightarrow> Some (if v then playCard s c True s else s))"

text \<open>
  A configuration is the current state, the pending timers and the render in which the
  effect of the opponent's turn was last set up. The effect is set up again after a
  render in which one of its dependencies
  \<^verbatim>\<open>[turn, aiHand, phase, deck, currentSuit]\<close> has changed; \<^verbatim>\<open>discardPile\<close> is not among
  them, so the effect can see an older discard pile. The source compares the two arrays
  by identity; the model compares their contents. In a run a call of \<^verbatim>\<open>setDeck\<close> or
  \<^verbatim>\<open>setAiHand\<close> leaves the content as it was only in a delayed \<^verbatim>\<open>playCard\<close> after a
  restart, which also takes the turn from the opponent or ends the game.
\<close>

record Config =
  st :: GameState
  timers :: "Timeout list"
  effectRender :: GameState

definition deps :: "GameState \<Rightarrow> Turn \<times> CardData list \<times> GamePhase \<times> CardData list \<times> Suit option" where
  "deps s = (turn s, aiHand s, phase s, deck s, currentSuit s)"

definition commit :: "Config \<Rightarrow> GameState \<Rightarrow> Timeout list \<Rightarrow> Config" where
  "commit k s' ts =
     \<lparr>st = s', timers = timers k @ ts,
      effectRender = (if deps s' = deps (st k) then effectRender k else s')\<rparr>"

fun isPlayCardAi :: "Timeout \<Rightarrow> bool" where
  "isPlayCardAi (PlayCardAi d cl c) = True"
| "isPlayCardAi (SetTurnAi d) = False"

definition removeAt :: "nat \<Rightarrow> 'a list \<Rightarrow> 'a list" where
  "removeAt n xs = take n xs @ drop (Suc n) xs"

text \<open>What a scheduled action does to the state when its timer fires.\<close>

fun fire :: "Timeout \<Rightarrow> GameState \<Rightarrow> GameState" where
  "fire (SetTurnAi d) s = s\<lparr>turn := ai\<rparr>"
| "fire (PlayCardAi d cl c) s = playCard cl c False s"

text \<open>
  The events: the clicks on the draw pile, on a card of the player's hand and on a suit
  of the suit picker (rendered only while \<^verbatim>\<open>showSuitPicker\<close> holds), the firing of a
  pending timer, and the firing of the timer of the opponent's effect with a random
  source. The opponent's effect waits 1500 ms after the render that set it up, and a
  delayed \<^verbatim>\<open>playCard\<close> waits 1000 ms from the firing of the effect that scheduled it, so
  the effect never fires while a delayed \<^verbatim>\<open>playCard\<close> is pending (timers fire at their
  nominal times). No other order is imposed: a pending timer may fire at any time, which
  covers every schedule of the component. A click handler runs in the closure of the
  current render. The last event is the click on a restart button (lines 298 and 470):
  \<^verbatim>\<open>initGame\<close> with the random source of its shuffle, applied to the current state. It
  sets new arrays, so the opponent's effect is set up again in the new render and its
  own timer is cleared; the timers scheduled inside handlers (lines 158, 170 and 264)
  are not cleared by anything and stay pending. \<open>None\<close>: the event cannot occur in this
  configuration, or the handler raises.
\<close>

datatype Event =
    ClickDraw
  | ClickCard CardData
  | ClickSuit Suit
  | Fire nat
  | AiEffect nat
  | Restart "nat \<Rightarrow> nat"

fun exec :: "Event \<Rightarrow> Config \<Rightarrow> Config option" where
  "exec ClickDraw k =
     (case handleDraw (st k) of
        None \<Rightarrow> None
      | Some (s', ts) \<Rightarrow> Some (commit k s' ts))"
| "exec (ClickCard c) k =
     (if c \<in> set (playerHand (st k))
      then (case clickCard c (st k) of
              None \<Rightarrow> None
            | Some s' \<Rightarrow> Some (commit k s' []))
      else None)"
| "exec (ClickSuit su) k =
     (if showSuitPicker (st k) then Some (commit k (handleSuitPick su (st k)) []) else None)"
| "exec (Fire n) k =
     (if n < length (timers k)
      then Some (commit (k\<lparr>timers := removeAt n (timers k)\<rparr>) (fire (timers k ! n) (st k)) [])
      else None)"
| "exec (AiEffect r) k =
     (if turn (effectRender k) = ai \<and> phase (effectRender k) = playing
         \<and> \<not> list_ex isPlayCardAi (timers k)
      then (case aiTurn (effectRender k) r (st k) of
              None \<Rightarrow> None
            | Some (s', ts) \<Rightarrow> Some (commit k s' ts))
      else None)"
| "exec (Restart rnd) k =
     (let s' = initGame rnd (st k) in Some \<lparr>st = s', timers = timers k, effectRender = s'\<rparr>)"

fun isRestart :: "Event \<Rightarrow> bool" where
  "isRestart (Restart rnd) = True"
| "isRestart e = False"

fun run :: "Event list \<Rightarrow> Config \<Rightarrow> Config option" where
  "run [] k = Some k"
| "run (e # es) k = (case exec e k of None \<Rightarrow> None | Some k' \<Rightarrow> run es k')"

text \<open>A new game: \<^verbatim>\<open>initGame\<close> runs once when the component is mounted.\<close>

definition newGame :: "(nat \<Rightarrow> nat) \<Rightarrow> Config" where
  "newGame rnd =
     (let s = initGame rnd initialState in \<lparr>st = s, timers = [], effectRender = s\<rparr>)"

inductive reachable :: "Config \<Rightarrow> bool" where
  start: "reachable (newGame rnd)"
| step: "reachable k \<Longrightarrow> exec e k = Some k' \<Longrightarrow> reachable k'"

section \<open>Example states\<close>

text \<open>The state after a new game whose shuffle leaves the deck in build order.\<close>

definition dealtState :: GameState where
  "dealtState = initGame (\<lambda>i. i) initialState"

text \<open>
  A state of a game in which the opponent holds one card that it cannot play, and the
  top card of the draw pile is the 8 of spades.
\<close>

definition stuckState :: GameState where
  "stuckState =
     \<lparr>deck = take 31 (drop 16 createDeck),
      playerHand = [mkCard hearts R3, mkCard spades RJ, mkCard spades R10, mkCard spades R9],
      aiHand = [mkCard diamonds R3],
      discardPile = [mkCard spades RK, mkCard spades RQ, mkCard hearts RQ, mkCard hearts RA,
        mkCard diamonds RA, mkCard hearts R8, mkCard diamonds R2, mkCard hearts R2,
        mkCard hearts R9, mkCard hearts R4, mkCard hearts R10, mkCard hearts R5,
        mkCard hearts RJ, mkCard hearts R6, mkCard hearts RK, mkCard hearts R7],
      currentSuit = Some hearts, turn = ai, phase = playing, showSuitPicker = False,
      pendingEightCard = None, message = MsgAiThinking\<rparr>"

text \<open>The dealt state with the turn at the opponent.\<close>

definition aiTurnState :: GameState where
  "aiTurnState = dealtState\<lparr>turn := ai\<rparr>"


definition lastEightState :: GameState where
  "lastEightState = stuckState\<lparr>aiHand := [mkCard spades R8]\<rparr>"

definition threesState :: GameState where
  "threesState = stuckState\<lparr>aiHand :=
       [mkCard spades R8, mkCard hearts R3, mkCard diamonds R3, mkCard clubs R3],
     discardPile := discardPile stuckState @ [mkCard spades R3],
     currentSuit := Some spades\<rparr>"

text \<open>
  A game from the deal in build order: the player draws four spades and plays the queen,
  both sides play on, the opponent comes down to the 3 of diamonds, which it cannot
  play on the 7 of hearts, draws the 8 of spades, and the delayed \<^verbatim>\<open>playCard\<close> of the
  drawn card fires.
\<close>

definition staleWinTrace :: "Event list" where
  "staleWinTrace =
     [ClickDraw, ClickDraw, ClickDraw, ClickDraw, ClickCard (mkCard spades RQ), AiEffect 0,
      ClickCard (mkCard hearts RA), AiEffect 4,
      ClickCard (mkCard hearts R8), ClickSuit diamonds, AiEffect 0,
      ClickCard (mkCard hearts R2), AiEffect 0,
      ClickCard (mkCard hearts R4), AiEffect 0,
      ClickCard (mkCard hearts R5), AiEffect 0,
      ClickCard (mkCard hearts R6), AiEffect 0,
      ClickCard (mkCard hearts R7), AiEffect 0, Fire 0]"

section \<open>The invariant of the runs without a restart\<close>

text \<open>
  The four containers together hold the cards of the deck, each once; the suit picker is
  open exactly while a wild is pending, and the pending wild is in the player's hand; the
  card of a pending delayed \<^verbatim>\<open>playCard\<close> is in the opponent's hand, and at most one is
  pending; the render of the opponent's effect agrees with the state on the dependencies
  of the effect.
\<close>

definition allCards :: "GameState \<Rightarrow> CardData list" where
  "allCards s = deck s @ playerHand s @ aiHand s @ discardPile s"

definition pendingCard :: "Timeout \<Rightarrow> CardData option" where
  "pendingCard t = (case t of SetTurnAi d \<Rightarrow> None | PlayCardAi d cl c \<Rightarrow> Some c)"

definition invariant :: "Config \<Rightarrow> bool" where
  "invariant k \<longleftrightarrow>
     mset (allCards (st k)) = mset createDeck
     \<and> (showSuitPicker (st k) \<longleftrightarrow> pendingEightCard (st k) \<noteq> None)
     \<and> set_option (pendingEightCard (st k)) \<subseteq> set (playerHand (st k))
     \<and> (\<Union>t \<in> set (timers k). set_option (pendingCard t)) \<subseteq> set (aiHand (st k))
     \<and> length (filter isPlayCardAi (timers k)) \<le> 1
     \<and> deps (effectRender k) = deps (st k)"

text \<open>
  Runs with a restart. In the first the opponent of \<open>staleWinTrace\<close> has drawn the 8 of
  spades, the restart button is clicked before the delayed \<^verbatim>\<open>playCard\<close> fires, and then
  it fires. In the second the player clicks the 8 of hearts, the game is restarted while
  the wild is pending, with a shuffle that exchanges the last card with the eighth, and
  the player picks a suit.
\<close>

definition restartTimerTrace :: "Event list" where
  "restartTimerTrace = butlast staleWinTrace @ [Restart (\<lambda>i. i), Fire 0]"

definition wildShuffle :: "nat \<Rightarrow> nat" where
  "wildShuffle i = (if i = 51 then 7 else i)"

definition restartWildTrace :: "Event list" where
  "restartWildTrace = [ClickCard (mkCard hearts R8), Restart wildShuffle, ClickSuit hearts]"

text \<open>
  A run in which the opponent's effect sees an older discard pile: the player draws a
  card that is not legal, clicks the 8 of hearts before the pass of the turn fires, the
  pass fires, and the player picks spades, the suit that is active already. No
  dependency of the effect changes with the pick, so the effect keeps the render in
  which the king of spades is the top discard. The two shuffles exchange a few cards of
  the build order: with \<open>playShuffle\<close> the opponent holds the king of hearts and the ace
  of spades, with \<open>drawShuffle\<close> it holds neither a king nor a spade nor an 8, and the
  king of diamonds is the second card from the top of the draw pile.
\<close>

definition playShuffle :: "nat \<Rightarrow> nat" where
  "playShuffle i = (if i = 50 then 16 else if i = 39 then 15 else i)"

definition drawShuffle :: "nat \<Rightarrow> nat" where
  "drawShuffle i = (if i = 50 then 16 else if i = 49 then 25 else if i = 12 then 0 else i)"

definition staleTopTrace :: "Event list" where
  "staleTopTrace = [ClickDraw, ClickCard (mkCard hearts R8), Fire 0, ClickSuit spades]"

section \<open>Basic facts\<close>

lemma createDeck_length: "length createDeck = 52"
  by (simp add: createDeck_def SUITS_def RANKS_def)

lemma shuffle_identity: "shuffle (\<lambda>i. i) (d::'a list) = d"
proof -
  have "k < length xs \<Longrightarrow> shuffleLoop (\<lambda>i. i) k xs = xs" for k and xs :: "'a list"
    by (induction k arbitrary: xs) (simp_all add: randomIndex_def Let_def)
  then show ?thesis by (cases d) (simp_all add: shuffle_def)
qed

lemma filter_cid_remove1:
  "distinct (map cid xs) \<Longrightarrow> c \<in> set xs \<Longrightarrow> filter (\<lambda>x. cid x \<noteq> cid c) xs = remove1 c xs"
proof (induction xs)
  case Nil
  then show ?case by simp
next
  case (Cons x xs)
  show ?case
  proof (cases "x = c")
    case True
    with Cons.prems have "\<forall>y\<in>set xs. cid y \<noteq> cid c" by (auto simp: image_iff)
    then have "filter (\<lambda>y. cid y \<noteq> cid c) xs = xs" by (simp add: filter_id_conv)
    with True show ?thesis by simp
  next
    case False
    with Cons.prems have "c \<in> set xs" and "cid x \<noteq> cid c" by auto
    with Cons show ?thesis using False by simp
  qed
qed

section \<open>The move validator\<close>

text \<open>
  Claim C1. With active suit \<open>activeSuit\<close> and top discard \<open>t\<close>, \<^verbatim>\<open>isValidMove\<close> accepts a
  card exactly when its rank is 8, or its suit is the active suit, or its rank is the
  rank of the top discard. The verdict depends on nothing else: in any other state with
  the same active suit and the same top discard it is the same.
\<close>

theorem isValidMove_iff:
  assumes "currentSuit s = Some activeSuit" and "topDiscard s = Some t"
  shows "isValidMove s c = Some (rank c = R8 \<or> suit c = activeSuit \<or> rank c = rank t)
    \<and> (\<forall>s'. currentSuit s' = Some activeSuit \<and> topDiscard s' = Some t
          \<longrightarrow> isValidMove s' c = isValidMove s c)"
  using assms by (simp add: isValidMove_def)

theorem isValidMove_iff_witness:
  "currentSuit dealtState = Some spades \<and> topDiscard dealtState = Some (mkCard spades RK)
   \<and> isValidMove dealtState (mkCard hearts RK) = Some True
   \<and> isValidMove dealtState (mkCard hearts R3) = Some False
   \<and> isValidMove (dealtState\<lparr>turn := ai, message := MsgAiSkip\<rparr>) (mkCard hearts R3)
       = isValidMove dealtState (mkCard hearts R3)"
proof -
  have a: "currentSuit dealtState = Some spades" by code_simp
  have b: "topDiscard dealtState = Some (mkCard spades RK)" by code_simp
  have a': "currentSuit (dealtState\<lparr>turn := ai, message := MsgAiSkip\<rparr>) = Some spades"
    by code_simp
  have b': "topDiscard (dealtState\<lparr>turn := ai, message := MsgAiSkip\<rparr>) = Some (mkCard spades RK)"
    by code_simp
  from isValidMove_iff [OF a b, of "mkCard hearts RK"]
    isValidMove_iff [OF a b, of "mkCard hearts R3"]
  show ?thesis using a b a' b' by (simp add: mkCard_def)
qed

section \<open>The deal\<close>

text \<open>
  Claim C4, as the code has it. If the shuffle returns the deck in build order, the
  player's hand is the first 8 cards in build order and the opponent's hand the next 8;
  the initial discard is the last (52nd) card in build order, the draw pile is the 17th
  to the 51st card, and the active suit is the suit of the initial discard.
\<close>

theorem initGame_identity_shuffle:
  assumes "shuffle rnd createDeck = createDeck"
  shows "playerHand (initGame rnd s) = take 8 createDeck
    \<and> aiHand (initGame rnd s) = take 8 (drop 8 createDeck)
    \<and> discardPile (initGame rnd s) = [createDeck ! 51]
    \<and> deck (initGame rnd s) = take 35 (drop 16 createDeck)
    \<and> currentSuit (initGame rnd s) = Some (suit (createDeck ! 51))"
proof -
  have l: "last (drop 16 createDeck) = createDeck ! 51"
    by (simp add: last_conv_nth createDeck_length)
  have b: "butlast (drop 16 createDeck) = take 35 (drop 16 createDeck)"
    by (simp add: butlast_conv_take createDeck_length)
  show ?thesis using assms l b by (simp add: initGame_def deal_def Let_def)
qed

theorem initGame_identity_shuffle_witness:
  "shuffle (\<lambda>i. i) createDeck = createDeck
   \<and> discardPile (initGame (\<lambda>i. i) initialState) = [mkCard spades RK]
   \<and> currentSuit (initGame (\<lambda>i. i) initialState) = Some spades
   \<and> hd (deck (initGame (\<lambda>i. i) initialState)) = mkCard diamonds R4
   \<and> length (deck (initGame (\<lambda>i. i) initialState)) = 35"
proof -
  have h: "shuffle (\<lambda>i. i) createDeck = createDeck" by (rule shuffle_identity)
  have c51: "createDeck ! 51 = mkCard spades RK" by code_simp
  have c16: "hd (take 35 (drop 16 createDeck)) = mkCard diamonds R4" by code_simp
  from initGame_identity_shuffle [OF h, of initialState]
  show ?thesis using h c51 c16 by (simp add: mkCard_def createDeck_length)
qed

text \<open>
  With the identity shuffle the initial discard is not the 17th card in build order
  (the 4 of diamonds): that card is in the draw pile.
\<close>

theorem seventeenth_card_not_discard:
  "shuffle (\<lambda>i. i) createDeck = createDeck
   \<and> discardPile (initGame (\<lambda>i. i) initialState) \<noteq> [createDeck ! 16]
   \<and> createDeck ! 16 \<in> set (deck (initGame (\<lambda>i. i) initialState))"
proof -
  have "discardPile (initGame (\<lambda>i. i) initialState) \<noteq> [createDeck ! 16]" by code_simp
  moreover have "createDeck ! 16 \<in> set (deck (initGame (\<lambda>i. i) initialState))" by code_simp
  ultimately show ?thesis by (simp add: shuffle_identity)
qed

section \<open>The wild card of the human player\<close>




section \<open>Drawing\<close>

lemma isValidMove_Some:
  "discardPile s \<noteq> [] \<Longrightarrow> \<exists>v. isValidMove s c = Some v"
  by (auto simp: isValidMove_def topDiscard_def)

text \<open>
  The draw of either side, with the legality of the opponent's drawn card as the render
  \<open>cl\<close> of the effect sees it. The human's draw (accepted: the player's turn, phase
  playing, no suit picker) with an empty deck changes no hand, deck or discard pile and schedules the pass of the
  turn; with a non-empty deck it moves the last card of the deck to the player's hand and
  schedules the pass of the turn exactly when the drawn card fails \<^verbatim>\<open>isValidMove\<close>. The
  opponent's draw (it has no playable card) with an empty deck changes no hand, deck or
  discard pile and gives the turn to the player; with a non-empty deck it moves the last
  card of the deck to the opponent's hand, and then a legal drawn card is scheduled to be
  played, which puts it on the discard pile, while an illegal one gives the turn to the
  player.
\<close>

lemma draw_behaviour:
  assumes "turn s = player" and "phase s = playing" and "\<not> showSuitPicker s"
    and "discardPile s \<noteq> []"
    and "filterValid cl (aiHand cl) = Some []" and "discardPile cl \<noteq> []"
    and "deck s2 = deck cl"
  shows "(\<exists>s' ts. handleDraw s = Some (s', ts)
            \<and> aiHand s' = aiHand s \<and> discardPile s' = discardPile s \<and> turn s' = player
            \<and> (\<forall>t\<in>set ts. fire t s' = s'\<lparr>turn := ai\<rparr>)
            \<and> (if deck s = []
                then deck s' = [] \<and> playerHand s' = playerHand s \<and> ts = [SetTurnAi 1500]
                else deck s = deck s' @ [last (deck s)]
                   \<and> playerHand s' = playerHand s @ [last (deck s)]
                   \<and> ts = (if isValidMove s (last (deck s)) = Some True then []
                           else [SetTurnAi 1000])))
       \<and> (\<exists>s' ts. aiTurn cl r s2 = Some (s', ts)
            \<and> playerHand s' = playerHand s2 \<and> discardPile s' = discardPile s2
            \<and> (if deck s2 = []
                then deck s' = [] \<and> aiHand s' = aiHand s2 \<and> turn s' = player \<and> ts = []
                else deck s2 = deck s' @ [last (deck s2)]
                   \<and> aiHand s' = aiHand s2 @ [last (deck s2)]
                   \<and> (if isValidMove cl (last (deck s2)) = Some True
                       then ts = [PlayCardAi 1000 cl (last (deck s2))]
                          \<and> discardPile (fire (hd ts) s') = discardPile s2 @ [last (deck s2)]
                          \<and> aiHand (fire (hd ts) s')
                              = filter (\<lambda>x. cid x \<noteq> cid (last (deck s2))) (aiHand s')
                       else ts = [] \<and> turn s' = player)))"
proof -
  obtain v where v: "isValidMove s (last (deck s)) = Some v"
    using isValidMove_Some [OF assms(4)] by blast
  obtain w where w: "isValidMove cl (last (deck cl)) = Some w"
    using isValidMove_Some [OF assms(6)] by blast
  have human: "\<exists>s' ts. handleDraw s = Some (s', ts)
            \<and> aiHand s' = aiHand s \<and> discardPile s' = discardPile s \<and> turn s' = player
            \<and> (\<forall>t\<in>set ts. fire t s' = s'\<lparr>turn := ai\<rparr>)
            \<and> (if deck s = []
                then deck s' = [] \<and> playerHand s' = playerHand s \<and> ts = [SetTurnAi 1500]
                else deck s = deck s' @ [last (deck s)]
                   \<and> playerHand s' = playerHand s @ [last (deck s)]
                   \<and> ts = (if isValidMove s (last (deck s)) = Some True then []
                           else [SetTurnAi 1000]))"
    using assms(1-3) v by (cases v) (simp_all add: handleDraw_def Let_def)
  have opp: "\<exists>s' ts. aiTurn cl r s2 = Some (s', ts)
            \<and> playerHand s' = playerHand s2 \<and> discardPile s' = discardPile s2
            \<and> (if deck s2 = []
                then deck s' = [] \<and> aiHand s' = aiHand s2 \<and> turn s' = player \<and> ts = []
                else deck s2 = deck s' @ [last (deck s2)]
                   \<and> aiHand s' = aiHand s2 @ [last (deck s2)]
                   \<and> (if isValidMove cl (last (deck s2)) = Some True
                       then ts = [PlayCardAi 1000 cl (last (deck s2))]
                          \<and> discardPile (fire (hd ts) s') = discardPile s2 @ [last (deck s2)]
                          \<and> aiHand (fire (hd ts) s')
                              = filter (\<lambda>x. cid x \<noteq> cid (last (deck s2))) (aiHand s')
                       else ts = [] \<and> turn s' = player))"
    using assms(5,7) w by (cases w) (simp_all add: aiTurn_def Let_def playCard_def)
  from human opp show ?thesis by (rule conjI)
qed


lemma draw_behaviour_witness:
  "(turn dealtState = player \<and> phase dealtState = playing \<and> \<not> showSuitPicker dealtState
    \<and> discardPile dealtState \<noteq> []
    \<and> filterValid stuckState (aiHand stuckState) = Some [] \<and> discardPile stuckState \<noteq> [])
   \<and> (\<exists>s'. handleDraw dealtState = Some (s', [])
          \<and> playerHand s' = playerHand dealtState @ [mkCard spades RQ])
   \<and> (\<exists>s'. aiTurn stuckState 0 stuckState
            = Some (s', [PlayCardAi 1000 stuckState (mkCard spades R8)])
          \<and> aiHand s' = [mkCard diamonds R3, mkCard spades R8])
   \<and> (\<exists>s'. handleDraw (dealtState\<lparr>deck := []\<rparr>) = Some (s', [SetTurnAi 1500])
          \<and> playerHand s' = playerHand dealtState)
   \<and> (\<exists>s'. aiTurn (stuckState\<lparr>deck := []\<rparr>) 0 (stuckState\<lparr>deck := []\<rparr>) = Some (s', [])
          \<and> aiHand s' = aiHand stuckState \<and> turn s' = player)"
proof -
  have h: "turn dealtState = player" "phase dealtState = playing"
    "\<not> showSuitPicker dealtState" "discardPile dealtState \<noteq> []"
    by code_simp+
  have h': "turn (dealtState\<lparr>deck := []\<rparr>) = player" "phase (dealtState\<lparr>deck := []\<rparr>) = playing"
    "\<not> showSuitPicker (dealtState\<lparr>deck := []\<rparr>)" "discardPile (dealtState\<lparr>deck := []\<rparr>) \<noteq> []"
    using h by simp_all
  have a: "filterValid stuckState (aiHand stuckState) = Some []"
    "discardPile stuckState \<noteq> []"
    by code_simp+
  have a': "filterValid (stuckState\<lparr>deck := []\<rparr>) (aiHand (stuckState\<lparr>deck := []\<rparr>)) = Some []"
    "discardPile (stuckState\<lparr>deck := []\<rparr>) \<noteq> []"
    by code_simp+
  have d1: "deck dealtState \<noteq> []" "last (deck dealtState) = mkCard spades RQ"
    "isValidMove dealtState (mkCard spades RQ) = Some True"
    by code_simp+
  have d2: "deck stuckState \<noteq> []" "last (deck stuckState) = mkCard spades R8"
    "isValidMove stuckState (mkCard spades R8) = Some True"
    "aiHand stuckState = [mkCard diamonds R3]"
    by code_simp+
  note full = draw_behaviour [OF h a refl, of 0]
  note empty = draw_behaviour [OF h' a' refl, of 0]
  have p1: "\<exists>s'. handleDraw dealtState = Some (s', [])
          \<and> playerHand s' = playerHand dealtState @ [mkCard spades RQ]"
    using conjunct1 [OF full] by (clarsimp simp: d1)
  have p2: "\<exists>s'. aiTurn stuckState 0 stuckState
            = Some (s', [PlayCardAi 1000 stuckState (mkCard spades R8)])
          \<and> aiHand s' = [mkCard diamonds R3, mkCard spades R8]"
    using conjunct2 [OF full] by (clarsimp simp: d2)
  have p3: "\<exists>s'. handleDraw (dealtState\<lparr>deck := []\<rparr>) = Some (s', [SetTurnAi 1500])
          \<and> playerHand s' = playerHand dealtState"
    using conjunct1 [OF empty] by clarsimp
  have p4: "\<exists>s'. aiTurn (stuckState\<lparr>deck := []\<rparr>) 0 (stuckState\<lparr>deck := []\<rparr>) = Some (s', [])
          \<and> aiHand s' = aiHand stuckState \<and> turn s' = player"
    using conjunct2 [OF empty] by clarsimp
  from h a p1 p2 p3 p4 show ?thesis by blast
qed

text \<open>
  Claim C6 does not hold of the code. \<^verbatim>\<open>discardPile\<close> is not among the dependencies of
  the opponent's effect, so after the run \<open>staleTopTrace\<close> the effect still reads the
  king of spades as the top discard, while the table shows the 8 of hearts with spades
  active. The opponent has no legal card and draws the king of diamonds, which the
  validator rejects on the table. The effect takes it for legal by the rank of the old
  top: the opponent's turn does not end, the delayed \<^verbatim>\<open>playCard\<close> is scheduled, and when
  it fires the king of diamonds is on the discard pile.
\<close>

theorem stale_top_drawn_card_played:
  "map_option (\<lambda>k. (topDiscard (st k), currentSuit (st k), turn (st k),
        filterValid (st k) (aiHand (st k)), last (deck (st k)),
        isValidMove (st k) (mkCard diamonds RK), topDiscard (effectRender k)))
     (run staleTopTrace (newGame drawShuffle))
   = Some (Some (mkCard hearts R8), Some spades, ai, Some [], mkCard diamonds RK, Some False,
       Some (mkCard spades RK))
   \<and> map_option (\<lambda>k. (turn (st k), last (aiHand (st k)), topDiscard (st k),
        map pendingCard (timers k)))
     (run (staleTopTrace @ [AiEffect 0]) (newGame drawShuffle))
   = Some (ai, mkCard diamonds RK, Some (mkCard hearts R8), [Some (mkCard diamonds RK)])
   \<and> map_option (\<lambda>k. (topDiscard (st k), turn (st k)))
     (run (staleTopTrace @ [AiEffect 0, Fire 0]) (newGame drawShuffle))
   = Some (Some (mkCard diamonds RK), player)"
  by code_simp

section \<open>Calls that are not accepted\<close>

text \<open>
  Claim C9, as the code has it. A draw out of turn, outside the phase playing or while the
  suit picker is open, and \<^verbatim>\<open>handleSuitPick\<close> with no pending wild, leave the whole
  state unchanged, the message included, and schedule nothing: they are ignored silently.
  A card is not playable out of turn or outside the phase playing, and a click on a card
  that is not playable leaves the state unchanged, again silently.
\<close>

theorem erroneous_calls_silent:
  "(turn s \<noteq> player \<or> phase s \<noteq> playing \<or> showSuitPicker s
      \<longrightarrow> handleDraw s = Some (s, []))
   \<and> (pendingEightCard s = None \<longrightarrow> handleSuitPick su s = s)
   \<and> (turn s \<noteq> player \<or> phase s \<noteq> playing \<longrightarrow> isPlayable s c = Some False)
   \<and> (isPlayable s c = Some False \<longrightarrow> clickCard c s = Some s)"
  by (simp add: handleDraw_def handleSuitPick_def clickCard_def isPlayable_def)

theorem erroneous_calls_silent_witness:
  "turn aiTurnState \<noteq> player \<and> pendingEightCard aiTurnState = None
   \<and> handleDraw aiTurnState = Some (aiTurnState, [])
   \<and> handleSuitPick hearts aiTurnState = aiTurnState
   \<and> isPlayable aiTurnState (mkCard hearts R8) = Some False
   \<and> clickCard (mkCard hearts R8) aiTurnState = Some aiTurnState"
proof -
  have a: "turn aiTurnState \<noteq> player" "pendingEightCard aiTurnState = None"
    by code_simp+
  from erroneous_calls_silent [of aiTurnState hearts "mkCard hearts R8"] a
  show ?thesis by simp
qed

text \<open>
  A draw out of turn returns the state as it was, with the message it had: no reason is
  reported. \<^verbatim>\<open>playCard\<close> itself checks neither turn nor phase: called for the player
  out of turn it moves the card to the discard pile.
\<close>

theorem rejected_draw_reports_nothing:
  "turn aiTurnState \<noteq> player
   \<and> handleDraw aiTurnState = Some (aiTurnState, [])
   \<and> message aiTurnState = MsgYourTurn
   \<and> mkCard hearts RA \<in> set (playerHand aiTurnState)
   \<and> discardPile (playCard aiTurnState (mkCard hearts RA) True aiTurnState)
       = discardPile aiTurnState @ [mkCard hearts RA]
   \<and> playCard aiTurnState (mkCard hearts RA) True aiTurnState \<noteq> aiTurnState"
proof -
  have 1: "turn aiTurnState \<noteq> player" by code_simp
  have 2: "handleDraw aiTurnState = Some (aiTurnState, [])" using 1 by (simp add: handleDraw_def)
  have 3: "message aiTurnState = MsgYourTurn" by code_simp
  have 4: "mkCard hearts RA \<in> set (playerHand aiTurnState)" by code_simp
  have 5: "discardPile (playCard aiTurnState (mkCard hearts RA) True aiTurnState)
       = discardPile aiTurnState @ [mkCard hearts RA]" by code_simp
  from 5 have 6: "playCard aiTurnState (mkCard hearts RA) True aiTurnState \<noteq> aiTurnState"
    by auto
  from 1 2 3 4 5 6 show ?thesis by simp
qed

section \<open>Repeated draws\<close>





section \<open>The suit nominated by the opponent\<close>















section \<open>The opponent's choice of a card\<close>

lemma filterValid_filter:
  "discardPile cl \<noteq> [] \<Longrightarrow>
   filterValid cl xs = Some (filter (\<lambda>x. isValidMove cl x = Some True) xs)"
proof (induction xs)
  case Nil
  then show ?case by simp
next
  case (Cons x xs)
  from isValidMove_Some [OF Cons.prems] obtain v where "isValidMove cl x = Some v" by blast
  with Cons show ?case by simp
qed

text \<open>
  The opponent's choice, with legality as the render \<open>cl\<close> of the effect sees it. When
  the opponent has a legal card, it plays a card of its hand that is legal. If it has a legal card that is not an 8, the card played is not an 8: it is the
  legal non-8 card at the random index, and every legal non-8 card is the one played for
  the random index equal to its position, so each is chosen with the probability of its
  index. An 8 is played only when no legal card other than 8s exists, and then it is the
  first legal card. With the hand 8 of spades, 3 of hearts, 3 of diamonds, 3 of clubs and
  a top discard of rank 3, the card played is a 3.
\<close>

lemma opponent_choice:
  assumes "discardPile cl \<noteq> []" and "\<exists>x \<in> set (aiHand cl). isValidMove cl x = Some True"
  shows "(let playable = filter (\<lambda>x. isValidMove cl x = Some True) (aiHand cl);
              nonEight = filter (\<lambda>x. rank x \<noteq> R8) playable;
              chosen = cardToPlay playable r
          in aiTurn cl r s = Some (playCard cl chosen False s, [])
           \<and> chosen \<in> set (aiHand cl) \<and> isValidMove cl chosen = Some True
           \<and> (if nonEight \<noteq> []
               then rank chosen \<noteq> R8 \<and> chosen = nonEight ! (r mod length nonEight)
                  \<and> (\<forall>i < length nonEight. cardToPlay playable i = nonEight ! i)
               else rank chosen = R8 \<and> chosen = hd playable)
           \<and> (set (aiHand cl) = {mkCard spades R8, mkCard hearts R3, mkCard diamonds R3,
                                   mkCard clubs R3}
                \<and> (\<exists>t. topDiscard cl = Some t \<and> rank t = R3)
               \<longrightarrow> rank chosen = R3))"
proof -
  let ?playable = "filter (\<lambda>x. isValidMove cl x = Some True) (aiHand cl)"
  let ?nonEight = "filter (\<lambda>x. rank x \<noteq> R8) ?playable"
  let ?chosen = "cardToPlay ?playable r"
  from assms(2) have pne: "?playable \<noteq> []" by (simp add: filter_empty_conv)
  have fv: "filterValid cl (aiHand cl) = Some ?playable" by (rule filterValid_filter [OF assms(1)])
  have at: "aiTurn cl r s = Some (playCard cl ?chosen False s, [])"
    using fv pne by (simp add: aiTurn_def)
  have idx: "r mod length ?nonEight < length ?nonEight" if "?nonEight \<noteq> []"
    using that by simp
  have ch: "?chosen = (if ?nonEight \<noteq> [] then ?nonEight ! (r mod length ?nonEight)
                      else hd ?playable)"
    using pne by (simp add: cardToPlay_def Let_def randomIndex_def hd_conv_nth)
  have chi: "\<forall>i < length ?nonEight. cardToPlay ?playable i = ?nonEight ! i"
    by (auto simp: cardToPlay_def Let_def randomIndex_def)
  have inne: "?chosen \<in> set ?nonEight" if "?nonEight \<noteq> []"
    using that ch idx [OF that] by (metis nth_mem)
  have inpl: "?chosen \<in> set ?playable"
  proof (cases "?nonEight = []")
    case True
    with ch have e: "?chosen = hd ?playable" by simp
    show ?thesis unfolding e by (rule hd_in_set [OF pne])
  next
    case False
    from inne [OF False] show ?thesis by simp
  qed
  then have c1: "?chosen \<in> set (aiHand cl)" and c2: "isValidMove cl ?chosen = Some True"
    by simp_all
  have c3: "rank ?chosen \<noteq> R8" if "?nonEight \<noteq> []"
    using inne [OF that] by simp
  have c4: "rank ?chosen = R8" if "?nonEight = []"
  proof -
    from inpl that have "?chosen \<notin> set ?nonEight" by simp
    with inpl show ?thesis by auto
  qed
  have sc: "rank ?chosen = R3"
    if h: "set (aiHand cl) = {mkCard spades R8, mkCard hearts R3, mkCard diamonds R3,
                                   mkCard clubs R3}"
      and t: "\<exists>t. topDiscard cl = Some t \<and> rank t = R3"
  proof -
    from t have "isValidMove cl (mkCard hearts R3) = Some True"
      by (auto simp: isValidMove_def mkCard_def)
    moreover from h have "mkCard hearts R3 \<in> set (aiHand cl)" by simp
    ultimately have "mkCard hearts R3 \<in> set ?nonEight" by (simp add: mkCard_def)
    then have "?nonEight \<noteq> []" by (metis empty_iff empty_set)
    from c3 [OF this] have n8: "rank ?chosen \<noteq> R8" .
    from c1 h have "?chosen = mkCard spades R8 \<or> ?chosen = mkCard hearts R3
        \<or> ?chosen = mkCard diamonds R3 \<or> ?chosen = mkCard clubs R3" by blast
    then have "rank ?chosen = R8 \<or> rank ?chosen = R3"
      by (elim disjE) (simp_all add: mkCard_def)
    with n8 show ?thesis by simp
  qed
  have branch: "if ?nonEight \<noteq> []
               then rank ?chosen \<noteq> R8 \<and> ?chosen = ?nonEight ! (r mod length ?nonEight)
                  \<and> (\<forall>i < length ?nonEight. cardToPlay ?playable i = ?nonEight ! i)
               else rank ?chosen = R8 \<and> ?chosen = hd ?playable"
  proof (cases "?nonEight = []")
    case True
    with c4 ch show ?thesis by simp
  next
    case False
    with c3 ch chi show ?thesis by simp
  qed
  from sc have sc': "set (aiHand cl) = {mkCard spades R8, mkCard hearts R3, mkCard diamonds R3,
                                   mkCard clubs R3}
                \<and> (\<exists>t. topDiscard cl = Some t \<and> rank t = R3)
               \<longrightarrow> rank ?chosen = R3" by blast
  from at c1 c2 branch sc' show ?thesis
    unfolding Let_def by (intro conjI)
qed

lemma opponent_choice_witness:
  "discardPile threesState \<noteq> [] \<and> mkCard hearts R3 \<in> set (aiHand threesState)
   \<and> isValidMove threesState (mkCard hearts R3) = Some True
   \<and> isValidMove threesState (mkCard spades R8) = Some True
   \<and> aiTurn threesState 0 threesState
       = Some (playCard threesState (mkCard hearts R3) False threesState, [])
   \<and> aiTurn threesState 1 threesState
       = Some (playCard threesState (mkCard diamonds R3) False threesState, [])
   \<and> aiTurn threesState 5 threesState
       = Some (playCard threesState (mkCard clubs R3) False threesState, [])
   \<and> aiTurn lastEightState 0 lastEightState
       = Some (playCard lastEightState (mkCard spades R8) False lastEightState, [])"
proof -
  have a: "discardPile threesState \<noteq> []" by code_simp
  have m: "mkCard hearts R3 \<in> set (aiHand threesState)" by code_simp
  have v: "isValidMove threesState (mkCard hearts R3) = Some True" by code_simp
  have v8: "isValidMove threesState (mkCard spades R8) = Some True" by code_simp
  from m v have b: "\<exists>x \<in> set (aiHand threesState). isValidMove threesState x = Some True"
    by blast
  have a': "discardPile lastEightState \<noteq> []" by code_simp
  have "mkCard spades R8 \<in> set (aiHand lastEightState)" by code_simp
  moreover have "isValidMove lastEightState (mkCard spades R8) = Some True" by code_simp
  ultimately have b': "\<exists>x \<in> set (aiHand lastEightState). isValidMove lastEightState x = Some True"
    by blast
  have e0: "cardToPlay (filter (\<lambda>x. isValidMove threesState x = Some True) (aiHand threesState)) 0
      = mkCard hearts R3" by code_simp
  have e1: "cardToPlay (filter (\<lambda>x. isValidMove threesState x = Some True) (aiHand threesState)) 1
      = mkCard diamonds R3" by code_simp
  have e5: "cardToPlay (filter (\<lambda>x. isValidMove threesState x = Some True) (aiHand threesState)) 5
      = mkCard clubs R3" by code_simp
  have e8: "cardToPlay (filter (\<lambda>x. isValidMove lastEightState x = Some True)
      (aiHand lastEightState)) 0 = mkCard spades R8" by code_simp
  have p0: "aiTurn threesState 0 threesState
       = Some (playCard threesState (mkCard hearts R3) False threesState, [])"
    using opponent_choice [OF a b, of 0 threesState] unfolding Let_def e0 by (rule conjunct1)
  have p1: "aiTurn threesState 1 threesState
       = Some (playCard threesState (mkCard diamonds R3) False threesState, [])"
    using opponent_choice [OF a b, of 1 threesState] unfolding Let_def e1 by (rule conjunct1)
  have p5: "aiTurn threesState 5 threesState
       = Some (playCard threesState (mkCard clubs R3) False threesState, [])"
    using opponent_choice [OF a b, of 5 threesState] unfolding Let_def e5 by (rule conjunct1)
  have p8: "aiTurn lastEightState 0 lastEightState
       = Some (playCard lastEightState (mkCard spades R8) False lastEightState, [])"
    using opponent_choice [OF a' b', of 0 lastEightState] unfolding Let_def e8 by (rule conjunct1)
  from a m v v8 p0 p1 p5 p8 show ?thesis by (intro conjI)
qed

text \<open>
  Claim C7 does not hold of the code. After the run \<open>staleTopTrace\<close> the table shows the
  8 of hearts with spades active, and the only legal card of the opponent's hand is the
  ace of spades. The effect still reads the king of spades as the top discard, since
  \<^verbatim>\<open>discardPile\<close> is not among its dependencies, takes the king of hearts for legal by
  rank, and plays it: a card that the validator rejects on the table, although a legal
  card that is not an 8 is in the hand.
\<close>

theorem stale_top_illegal_card_played:
  "map_option (\<lambda>k. (topDiscard (st k), currentSuit (st k), turn (st k),
        filterValid (st k) (aiHand (st k)),
        isValidMove (st k) (mkCard hearts RK), topDiscard (effectRender k)))
     (run staleTopTrace (newGame playShuffle))
   = Some (Some (mkCard hearts R8), Some spades, ai, Some [mkCard spades RA], Some False,
       Some (mkCard spades RK))
   \<and> map_option (\<lambda>k. (topDiscard (st k), aiHand (st k)))
     (run (staleTopTrace @ [AiEffect 0]) (newGame playShuffle))
   = Some (Some (mkCard hearts RK),
       [mkCard hearts R9, mkCard hearts R10, mkCard hearts RJ, mkCard hearts RQ,
        mkCard diamonds RA, mkCard diamonds R2, mkCard spades RA])"
  by code_simp

section \<open>The cards of the four containers\<close>

lemma mset_shuffleLoop: "k < length d \<Longrightarrow> mset (shuffleLoop rnd k d) = mset d"
proof (induction k arbitrary: d)
  case 0
  then show ?case by simp
next
  case (Suc k)
  let ?j = "randomIndex (rnd (Suc k)) (Suc k + 1)"
  have j: "?j < length d" using Suc.prems by (simp add: randomIndex_def less_Suc_eq_le
        order.strict_trans1 [OF _ Suc.prems] mod_Suc_le_divisor le_less_trans)
  have sw: "mset (d[Suc k := d ! ?j, ?j := d ! Suc k]) = mset d"
    using mset_swap [OF j Suc.prems] .
  have "mset (shuffleLoop rnd k (d[Suc k := d ! ?j, ?j := d ! Suc k]))
      = mset (d[Suc k := d ! ?j, ?j := d ! Suc k])"
    by (rule Suc.IH) (use Suc.prems in simp)
  with sw show ?case by (simp add: Let_def)
qed

lemma mset_shuffle: "mset (shuffle rnd d) = mset d"
proof (cases d)
  case Nil
  then show ?thesis by (simp add: shuffle_def)
next
  case (Cons x xs)
  then show ?thesis by (simp add: shuffle_def mset_shuffleLoop)
qed

lemma mset_butlast_last:
  assumes "xs \<noteq> []"
  shows "mset (butlast xs) + {#last xs#} = mset xs"
proof -
  have "mset xs = mset (butlast xs @ [last xs])"
    by (simp only: append_butlast_last_id [OF assms])
  then show ?thesis by simp
qed

lemma allCards_deal:
  assumes "length fullDeck = 52"
  shows "mset (allCards (deal fullDeck s)) = mset fullDeck"
proof -
  define r where "r = drop 16 fullDeck"
  from assms have ne: "r \<noteq> []" by (simp add: r_def)
  have a: "allCards (deal fullDeck s)
      = butlast r @ take 8 fullDeck @ take 8 (drop 8 fullDeck) @ [last r]"
    by (simp add: allCards_def deal_def Let_def r_def)
  have d: "r = drop 8 (drop 8 fullDeck)" by (simp add: r_def)
  have c: "fullDeck = take 8 fullDeck @ take 8 (drop 8 fullDeck) @ r"
    unfolding d by (simp only: append_take_drop_id)
  have "mset fullDeck = mset (take 8 fullDeck) + mset (take 8 (drop 8 fullDeck)) + mset r"
    by (subst c) (simp del: append_take_drop_id)
  also have "\<dots> = mset (take 8 fullDeck) + mset (take 8 (drop 8 fullDeck))
      + (mset (butlast r) + {#last r#})"
    by (simp only: mset_butlast_last [OF ne])
  finally show ?thesis unfolding a by (simp add: ac_simps)
qed

lemma distinct_cid_createDeck: "distinct (map cid createDeck)"
  by code_simp

lemma cards_distinct:
  assumes "mset (allCards s) = mset createDeck"
  shows "distinct (map cid (allCards s))" and "length (allCards s) = 52"
proof -
  from assms have "mset (map cid (allCards s)) = mset (map cid createDeck)"
    by (metis mset_map)
  from mset_eq_imp_distinct_iff [OF this] distinct_cid_createDeck
  show "distinct (map cid (allCards s))" by simp
  from mset_eq_length [OF assms] show "length (allCards s) = 52"
    by (simp add: createDeck_length)
qed

lemma invariant_newGame: "invariant (newGame rnd)"
proof -
  have l: "length (shuffle rnd createDeck) = 52"
    using mset_eq_length [OF mset_shuffle [of rnd createDeck]] by (simp add: createDeck_length)
  have "mset (allCards (initGame rnd initialState)) = mset createDeck"
    unfolding initGame_def by (simp add: allCards_deal [OF l] mset_shuffle)
  moreover have "showSuitPicker (initGame rnd initialState) = False"
    "pendingEightCard (initGame rnd initialState) = None"
    by (simp_all add: initGame_def deal_def Let_def initialState_def)
  ultimately show ?thesis by (simp add: invariant_def newGame_def Let_def)
qed

lemma remove_by_cid:
  assumes "distinct (map cid h)" and "c \<in> set h"
  shows "mset (filter (\<lambda>x. cid x \<noteq> cid c) h) + {#c#} = mset h"
  using assms by (simp add: filter_cid_remove1)

lemma distinct_parts:
  assumes "distinct (map cid (allCards s))"
  shows "distinct (map cid (playerHand s))" and "distinct (map cid (aiHand s))"
  using assms by (simp_all add: allCards_def)


lemma move_card:
  assumes "distinct (map cid h)" and "c \<in> set h"
  shows "mset (a @ filter (\<lambda>x. cid x \<noteq> cid c) h @ b @ [c]) = mset (a @ h @ b)"
proof -
  have "mset (a @ remove1 c h @ b @ [c]) = mset (a @ h @ b)"
    using assms(2) by simp
  then show ?thesis by (simp only: filter_cid_remove1 [OF assms])
qed

lemma playCard_player_cards:
  assumes "c \<in> set (playerHand s)" and "distinct (map cid (playerHand s))"
  shows "mset (allCards (playCard cl c True s)) = mset (allCards s)"
proof (cases "rank c = R8")
  case True
  then show ?thesis by (simp add: playCard_def allCards_def)
next
  case False
  then have "allCards (playCard cl c True s)
      = deck s @ filter (\<lambda>x. cid x \<noteq> cid c) (playerHand s)
          @ (aiHand s @ discardPile s) @ [c]"
    by (simp add: playCard_def allCards_def Let_def)
  with move_card [OF assms(2,1), of "deck s" "aiHand s @ discardPile s"]
  show ?thesis by (simp only: allCards_def)
qed

lemma playCard_ai_cards:
  assumes "c \<in> set (aiHand s)" and "distinct (map cid (aiHand s))"
  shows "mset (allCards (playCard cl c False s)) = mset (allCards s)"
proof -
  have "allCards (playCard cl c False s)
      = (deck s @ playerHand s) @ filter (\<lambda>x. cid x \<noteq> cid c) (aiHand s)
          @ discardPile s @ [c]"
    by (simp add: playCard_def allCards_def Let_def)
  with move_card [OF assms(2,1), of "deck s @ playerHand s" "discardPile s"]
  show ?thesis by (simp only: allCards_def append_assoc)
qed

lemma playCard_ai_other:
  "showSuitPicker (playCard cl c False s) = showSuitPicker s"
  "pendingEightCard (playCard cl c False s) = pendingEightCard s"
  "playerHand (playCard cl c False s) = playerHand s"
  "deck (playCard cl c False s) = deck s"
  by (simp_all add: playCard_def Let_def)

lemma handleSuitPick_cards:
  assumes "pendingEightCard s = Some p" and "p \<in> set (playerHand s)"
    and "distinct (map cid (playerHand s))"
  shows "mset (allCards (handleSuitPick su s)) = mset (allCards s)"
proof -
  have "allCards (handleSuitPick su s)
      = deck s @ filter (\<lambda>x. cid x \<noteq> cid p) (playerHand s)
          @ (aiHand s @ discardPile s) @ [p]"
    using assms(1) by (simp add: handleSuitPick_def allCards_def Let_def)
  with move_card [OF assms(3,2), of "deck s" "aiHand s @ discardPile s"]
  show ?thesis by (simp only: allCards_def)
qed

lemma handleSuitPick_other:
  assumes "pendingEightCard s = Some p"
  shows "showSuitPicker (handleSuitPick su s) = False"
    "pendingEightCard (handleSuitPick su s) = None"
    "aiHand (handleSuitPick su s) = aiHand s"
  using assms by (simp_all add: handleSuitPick_def Let_def)

lemma draw_cards:
  assumes "d \<noteq> []"
  shows "mset (butlast d @ (h @ [last d]) @ b) = mset (d @ h @ b)"
proof -
  have "mset (butlast d @ (h @ [last d]) @ b) = (mset (butlast d) + {#last d#}) + mset h + mset b"
    by simp
  then show ?thesis by (simp only: mset_butlast_last [OF assms] mset_append ac_simps)
qed

lemma handleDraw_facts:
  assumes "handleDraw s = Some (s', ts)"
  shows "mset (allCards s') = mset (allCards s)"
    and "showSuitPicker s' = showSuitPicker s"
    and "pendingEightCard s' = pendingEightCard s"
    and "set (playerHand s) \<subseteq> set (playerHand s')"
    and "aiHand s' = aiHand s"
    and "filter isPlayCardAi ts = []"
proof -
  consider (rej) "s' = s" "ts = []"
    | (empty) "s' = s\<lparr>message := MsgDeckEmpty\<rparr>" "ts = [SetTurnAi 1500]"
    | (drawn) v where "deck s \<noteq> []"
        "s' = s\<lparr>deck := butlast (deck s), playerHand := playerHand s @ [last (deck s)],
                 message := MsgYouDrew\<rparr>"
        "ts = (if \<not> v then [SetTurnAi 1000] else [])"
  proof (cases "turn s \<noteq> player \<or> phase s \<noteq> playing \<or> showSuitPicker s")
    case True
    with assms have "s' = s \<and> ts = []" by (simp add: handleDraw_def)
    with rej show ?thesis by blast
  next
    case guard: False
    show ?thesis
    proof (cases "deck s = []")
      case True
      with guard assms have "s' = s\<lparr>message := MsgDeckEmpty\<rparr> \<and> ts = [SetTurnAi 1500]"
        by (simp add: handleDraw_def)
      with empty show ?thesis by blast
    next
      case False
      show ?thesis
      proof (cases "isValidMove s (last (deck s))")
        case None
        with guard False assms show ?thesis by (simp add: handleDraw_def Let_def)
      next
        case (Some v)
        with guard False assms have
          "s' = s\<lparr>deck := butlast (deck s), playerHand := playerHand s @ [last (deck s)],
                 message := MsgYouDrew\<rparr> \<and> ts = (if \<not> v then [SetTurnAi 1000] else [])"
          by (simp add: handleDraw_def Let_def)
        with False drawn show ?thesis by blast
      qed
    qed
  qed
  then have "mset (allCards s') = mset (allCards s)
    \<and> showSuitPicker s' = showSuitPicker s
    \<and> pendingEightCard s' = pendingEightCard s
    \<and> set (playerHand s) \<subseteq> set (playerHand s')
    \<and> aiHand s' = aiHand s
    \<and> filter isPlayCardAi ts = []"
  proof cases
    case rej
    then show ?thesis by simp
  next
    case empty
    then show ?thesis by (simp add: allCards_def)
  next
    case (drawn v)
    have "mset (allCards s') = mset (allCards s)"
      unfolding allCards_def drawn(2)
      using draw_cards [OF drawn(1), of "playerHand s" "aiHand s @ discardPile s"] by simp
    moreover have "filter isPlayCardAi ts = []" unfolding drawn(3) by simp
    ultimately show ?thesis unfolding drawn(2) by auto
  qed
  then show "mset (allCards s') = mset (allCards s)"
    and "showSuitPicker s' = showSuitPicker s"
    and "pendingEightCard s' = pendingEightCard s"
    and "set (playerHand s) \<subseteq> set (playerHand s')"
    and "aiHand s' = aiHand s"
    and "filter isPlayCardAi ts = []"
    by blast+
qed

lemma clickCard_facts:
  assumes "clickCard c s = Some s'" and "c \<in> set (playerHand s)"
    and "distinct (map cid (playerHand s))"
    and "showSuitPicker s \<longleftrightarrow> pendingEightCard s \<noteq> None"
    and "set_option (pendingEightCard s) \<subseteq> set (playerHand s)"
  shows "mset (allCards s') = mset (allCards s)"
    and "showSuitPicker s' \<longleftrightarrow> pendingEightCard s' \<noteq> None"
    and "set_option (pendingEightCard s') \<subseteq> set (playerHand s')"
    and "aiHand s' = aiHand s"
proof -
  consider (ignored) "s' = s"
    | (played) "s' = playCard s c True s" "\<not> showSuitPicker s"
  proof (cases "isPlayable s c")
    case None
    with assms(1) show ?thesis by (simp add: clickCard_def)
  next
    case (Some v)
    show ?thesis
    proof (cases v)
      case True
      with Some have "\<not> showSuitPicker s"
        by (simp add: isPlayable_def split: if_splits option.splits)
      moreover from True Some assms(1) have "s' = playCard s c True s"
        by (simp add: clickCard_def)
      ultimately show ?thesis using played by blast
    next
      case False
      with Some assms(1) have "s' = s" by (simp add: clickCard_def)
      with ignored show ?thesis by blast
    qed
  qed
  then have "mset (allCards s') = mset (allCards s)
    \<and> (showSuitPicker s' \<longleftrightarrow> pendingEightCard s' \<noteq> None)
    \<and> set_option (pendingEightCard s') \<subseteq> set (playerHand s')
    \<and> aiHand s' = aiHand s"
  proof cases
    case ignored
    with assms(4,5) show ?thesis by simp
  next
    case played
    from played(2) assms(4) have pn: "pendingEightCard s = None" by simp
    have m: "mset (allCards s') = mset (allCards s)"
      unfolding played(1) by (rule playCard_player_cards [OF assms(2,3)])
    show ?thesis
    proof (cases "rank c = R8")
      case True
      with m played(1) assms(2) show ?thesis by (simp add: playCard_def)
    next
      case False
      with m played pn show ?thesis by (simp add: playCard_def Let_def)
    qed
  qed
  then show "mset (allCards s') = mset (allCards s)"
    and "showSuitPicker s' \<longleftrightarrow> pendingEightCard s' \<noteq> None"
    and "set_option (pendingEightCard s') \<subseteq> set (playerHand s')"
    and "aiHand s' = aiHand s"
    by blast+
qed

lemma filterValid_subset: "filterValid cl xs = Some ys \<Longrightarrow> set ys \<subseteq> set xs"
proof (induction xs arbitrary: ys)
  case Nil
  then show ?case by simp
next
  case (Cons x xs)
  then show ?case by (fastforce split: option.splits if_splits)
qed

lemma cardToPlay_in:
  assumes "playable \<noteq> []"
  shows "cardToPlay playable r \<in> set playable"
proof (cases "filter (\<lambda>x. rank x \<noteq> R8) playable = []")
  case True
  with assms show ?thesis by (simp add: cardToPlay_def Let_def hd_conv_nth [symmetric])
next
  case False
  let ?ne = "filter (\<lambda>x. rank x \<noteq> R8) playable"
  from False have "r mod length ?ne < length ?ne" by simp
  then have "?ne ! (r mod length ?ne) \<in> set ?ne" by (rule nth_mem)
  then have "?ne ! (r mod length ?ne) \<in> set playable" by simp
  with False show ?thesis by (simp add: cardToPlay_def Let_def randomIndex_def)
qed


lemma draw_cards_ai:
  assumes "d \<noteq> []"
  shows "mset (butlast d @ a @ (h @ [last d]) @ b) = mset (d @ a @ h @ b)"
proof -
  have "mset (butlast d @ a @ (h @ [last d]) @ b)
      = (mset (butlast d) + {#last d#}) + mset a + mset h + mset b"
    by simp
  then show ?thesis by (simp only: mset_butlast_last [OF assms] mset_append ac_simps)
qed

lemma aiTurn_cases:
  assumes "aiTurn cl r s = Some (s', ts)"
  obtains (play) playable where "filterValid cl (aiHand cl) = Some playable" "playable \<noteq> []"
      "s' = playCard cl (cardToPlay playable r) False s" "ts = []"
  | (drawLegal) "deck cl \<noteq> []"
      "s' = s\<lparr>deck := butlast (deck cl), aiHand := aiHand s @ [last (deck cl)],
               message := MsgAiDrew\<rparr>"
      "ts = [PlayCardAi 1000 cl (last (deck cl))]"
  | (drawIllegal) "deck cl \<noteq> []"
      "s' = s\<lparr>deck := butlast (deck cl), aiHand := aiHand s @ [last (deck cl)],
               message := MsgAiDrew, turn := player\<rparr>"
      "ts = []"
  | (skip) "s' = s\<lparr>message := MsgAiSkip, turn := player\<rparr>" "ts = []"
proof (cases "filterValid cl (aiHand cl)")
  case None
  with assms show ?thesis by (simp add: aiTurn_def)
next
  case (Some playable)
  show ?thesis
  proof (cases "playable = []")
    case False
    with Some assms have "s' = playCard cl (cardToPlay playable r) False s \<and> ts = []"
      by (simp add: aiTurn_def)
    with Some False play show ?thesis by blast
  next
    case True
    show ?thesis
    proof (cases "deck cl = []")
      case True
      with Some \<open>playable = []\<close> assms
      have "s' = s\<lparr>message := MsgAiSkip, turn := player\<rparr> \<and> ts = []"
        by (simp add: aiTurn_def)
      with skip show ?thesis by blast
    next
      case False
      show ?thesis
      proof (cases "isValidMove cl (last (deck cl))")
        case None
        with Some \<open>playable = []\<close> False assms show ?thesis
          by (simp add: aiTurn_def Let_def)
      next
        case v: (Some v)
        show ?thesis
        proof (cases v)
          case True
          with v Some \<open>playable = []\<close> False assms
          have "s' = s\<lparr>deck := butlast (deck cl), aiHand := aiHand s @ [last (deck cl)],
               message := MsgAiDrew\<rparr> \<and> ts = [PlayCardAi 1000 cl (last (deck cl))]"
            by (simp add: aiTurn_def Let_def)
          with False drawLegal show ?thesis by blast
        next
          case vf: False
          with v Some \<open>playable = []\<close> False assms
          have "s' = s\<lparr>deck := butlast (deck cl), aiHand := aiHand s @ [last (deck cl)],
               message := MsgAiDrew, turn := player\<rparr> \<and> ts = []"
            by (simp add: aiTurn_def Let_def)
          with False drawIllegal show ?thesis by blast
        qed
      qed
    qed
  qed
qed

lemma aiTurn_facts:
  assumes "aiTurn cl r s = Some (s', ts)" and "aiHand cl = aiHand s" and "deck cl = deck s"
    and "distinct (map cid (aiHand s))"
  shows "mset (allCards s') = mset (allCards s)
    \<and> showSuitPicker s' = showSuitPicker s
    \<and> pendingEightCard s' = pendingEightCard s
    \<and> playerHand s' = playerHand s
    \<and> (\<Union>t \<in> set ts. set_option (pendingCard t)) \<subseteq> set (aiHand s')
    \<and> length (filter isPlayCardAi ts) \<le> 1"
  using assms(1)
proof (cases rule: aiTurn_cases)
  case (play playable)
  from filterValid_subset [OF play(1)] cardToPlay_in [OF play(2), of r] assms(2)
  have "cardToPlay playable r \<in> set (aiHand s)" by auto
  from playCard_ai_cards [OF this assms(4)]
  have "mset (allCards s') = mset (allCards s)" unfolding play(3) .
  then show ?thesis unfolding play(3,4) by (simp add: playCard_ai_other)
next
  case drawLegal
  from drawLegal(1) assms(3) have ne: "deck s \<noteq> []" by simp
  have "mset (allCards s') = mset (allCards s)"
    unfolding allCards_def drawLegal(2) assms(3)
    using draw_cards_ai [OF ne, of "playerHand s" "aiHand s" "discardPile s"] by simp
  then show ?thesis unfolding drawLegal(2,3) by (simp add: pendingCard_def)
next
  case drawIllegal
  from drawIllegal(1) assms(3) have ne: "deck s \<noteq> []" by simp
  have "mset (allCards s') = mset (allCards s)"
    unfolding allCards_def drawIllegal(2) assms(3)
    using draw_cards_ai [OF ne, of "playerHand s" "aiHand s" "discardPile s"] by simp
  then show ?thesis unfolding drawIllegal(2,3) by simp
next
  case skip
  then show ?thesis by (simp add: allCards_def)
qed

lemma set_removeAt: "set (removeAt n xs) \<subseteq> set xs"
  by (auto simp: removeAt_def dest: in_set_takeD in_set_dropD)

lemma filter_removeAt_le: "length (filter P (removeAt n xs)) \<le> length (filter P xs)"
proof (cases "n < length xs")
  case True
  have "length (filter P xs)
      = length (filter P (take n xs @ xs ! n # drop (Suc n) xs))"
    by (simp only: id_take_nth_drop [OF True, symmetric])
  then show ?thesis by (simp add: removeAt_def)
next
  case False
  then show ?thesis by (simp add: removeAt_def)
qed

lemma filter_removeAt_hit:
  assumes "n < length xs" and "P (xs ! n)" and "length (filter P xs) \<le> 1"
  shows "filter P (removeAt n xs) = []"
proof -
  have "length (filter P xs)
      = length (filter P (take n xs @ xs ! n # drop (Suc n) xs))"
    by (simp only: id_take_nth_drop [OF assms(1), symmetric])
  with assms(2,3) have "length (filter P (take n xs)) + length (filter P (drop (Suc n) xs)) = 0"
    by simp
  then show ?thesis by (simp add: removeAt_def)
qed

lemma pendingCard_None: "\<not> isPlayCardAi t \<Longrightarrow> pendingCard t = None"
  by (cases t) (simp_all add: pendingCard_def)

lemma no_pending:
  assumes "filter isPlayCardAi ts = []"
  shows "(\<Union>t \<in> set ts. set_option (pendingCard t)) = {}"
proof -
  from assms have "\<forall>t \<in> set ts. \<not> isPlayCardAi t" by (simp add: filter_empty_conv)
  then have "\<forall>t \<in> set ts. pendingCard t = None" by (simp add: pendingCard_None)
  then show ?thesis by simp
qed

lemma invariant_commit:
  assumes "deps (effectRender k) = deps (st k)"
    and "mset (allCards s') = mset createDeck"
    and "showSuitPicker s' \<longleftrightarrow> pendingEightCard s' \<noteq> None"
    and "set_option (pendingEightCard s') \<subseteq> set (playerHand s')"
    and "(\<Union>t \<in> set (timers k @ ts). set_option (pendingCard t)) \<subseteq> set (aiHand s')"
    and "length (filter isPlayCardAi (timers k @ ts)) \<le> 1"
  shows "invariant (commit k s' ts)"
proof -
  have "deps (effectRender (commit k s' ts)) = deps s'"
    using assms(1) by (simp add: commit_def)
  moreover have "st (commit k s' ts) = s'" "timers (commit k s' ts) = timers k @ ts"
    by (simp_all add: commit_def)
  ultimately show ?thesis unfolding invariant_def using assms(2-6) by simp
qed


lemma pendingCard_PlayCardAi: "set_option (pendingCard (PlayCardAi d cl c)) = {c}"
  by (simp add: pendingCard_def)

lemma invariant_exec:
  assumes inv: "invariant k" and ex: "exec e k = Some k'" and nr: "\<not> isRestart e"
  shows "invariant k'"
proof -
  let ?s = "st k"
  from inv have I1: "mset (allCards ?s) = mset createDeck"
    and I2: "showSuitPicker ?s \<longleftrightarrow> pendingEightCard ?s \<noteq> None"
    and I2': "set_option (pendingEightCard ?s) \<subseteq> set (playerHand ?s)"
    and I3: "(\<Union>t \<in> set (timers k). set_option (pendingCard t)) \<subseteq> set (aiHand ?s)"
    and I3': "length (filter isPlayCardAi (timers k)) \<le> 1"
    and I4: "deps (effectRender k) = deps ?s"
    by (simp_all add: invariant_def)
  from cards_distinct(1) [OF I1] have dph: "distinct (map cid (playerHand ?s))"
    and dah: "distinct (map cid (aiHand ?s))"
    by (rule distinct_parts)+
  show ?thesis
  proof (cases e)
    case ClickDraw
    with ex obtain s' ts where hd: "handleDraw ?s = Some (s', ts)" and k': "k' = commit k s' ts"
      by (auto split: option.splits)
    note f = handleDraw_facts [OF hd]
    show ?thesis unfolding k'
    proof (rule invariant_commit [OF I4])
      show "mset (allCards s') = mset createDeck" using f(1) I1 by simp
      show "showSuitPicker s' \<longleftrightarrow> pendingEightCard s' \<noteq> None" using f(2,3) I2 by simp
      show "set_option (pendingEightCard s') \<subseteq> set (playerHand s')"
        using f(3,4) I2' by auto
      show "(\<Union>t \<in> set (timers k @ ts). set_option (pendingCard t)) \<subseteq> set (aiHand s')"
        using I3 no_pending [OF f(6)] f(5) by simp
      show "length (filter isPlayCardAi (timers k @ ts)) \<le> 1" using I3' f(6) by simp
    qed
  next
    case (ClickCard c)
    with ex have cin: "c \<in> set (playerHand ?s)" by (simp split: if_splits)
    with ex ClickCard obtain s' where cc: "clickCard c ?s = Some s'"
      and k': "k' = commit k s' []"
      by (auto split: option.splits)
    note f = clickCard_facts [OF cc cin dph I2 I2']
    show ?thesis unfolding k'
    proof (rule invariant_commit [OF I4])
      show "mset (allCards s') = mset createDeck" using f(1) I1 by simp
      show "showSuitPicker s' \<longleftrightarrow> pendingEightCard s' \<noteq> None" by (rule f(2))
      show "set_option (pendingEightCard s') \<subseteq> set (playerHand s')" by (rule f(3))
      show "(\<Union>t \<in> set (timers k @ []). set_option (pendingCard t)) \<subseteq> set (aiHand s')"
        using I3 f(4) by simp
      show "length (filter isPlayCardAi (timers k @ [])) \<le> 1" using I3' by simp
    qed
  next
    case (ClickSuit su)
    with ex have sp: "showSuitPicker ?s" and k': "k' = commit k (handleSuitPick su ?s) []"
      by (simp_all split: if_splits)
    from sp I2 obtain p where p: "pendingEightCard ?s = Some p" by auto
    with I2' have pin: "p \<in> set (playerHand ?s)" by simp
    note f = handleSuitPick_other [OF p, of su]
    show ?thesis unfolding k'
    proof (rule invariant_commit [OF I4])
      show "mset (allCards (handleSuitPick su ?s)) = mset createDeck"
        using handleSuitPick_cards [OF p pin dph, of su] I1 by simp
      show "showSuitPicker (handleSuitPick su ?s) \<longleftrightarrow> pendingEightCard (handleSuitPick su ?s) \<noteq> None"
        using f(1,2) by simp
      show "set_option (pendingEightCard (handleSuitPick su ?s))
          \<subseteq> set (playerHand (handleSuitPick su ?s))"
        using f(2) by simp
      show "(\<Union>t \<in> set (timers k @ []). set_option (pendingCard t))
          \<subseteq> set (aiHand (handleSuitPick su ?s))"
        using I3 f(3) by simp
      show "length (filter isPlayCardAi (timers k @ [])) \<le> 1" using I3' by simp
    qed
  next
    case (Fire n)
    let ?k0 = "k\<lparr>timers := removeAt n (timers k)\<rparr>"
    from Fire ex have n: "n < length (timers k)"
      and k': "k' = commit ?k0 (fire (timers k ! n) ?s) []"
      by (simp_all split: if_splits)
    have I4': "deps (effectRender ?k0) = deps (st ?k0)" using I4 by simp
    have tm: "timers ?k0 @ [] = removeAt n (timers k)" by simp
    have le: "length (filter isPlayCardAi (removeAt n (timers k))) \<le> 1"
      using I3' filter_removeAt_le [of isPlayCardAi n "timers k"] by simp
    have sub: "(\<Union>t \<in> set (removeAt n (timers k)). set_option (pendingCard t))
        \<subseteq> set (aiHand ?s)"
      using I3 set_removeAt [of n "timers k"] by blast
    show ?thesis
    proof (cases "timers k ! n")
      case (SetTurnAi d)
      then have s': "fire (timers k ! n) ?s = ?s\<lparr>turn := ai\<rparr>" by simp
      show ?thesis unfolding k' s'
      proof (rule invariant_commit [OF I4'])
        show "mset (allCards (?s\<lparr>turn := ai\<rparr>)) = mset createDeck"
          using I1 by (simp add: allCards_def)
        show "showSuitPicker (?s\<lparr>turn := ai\<rparr>) \<longleftrightarrow> pendingEightCard (?s\<lparr>turn := ai\<rparr>) \<noteq> None"
          using I2 by simp
        show "set_option (pendingEightCard (?s\<lparr>turn := ai\<rparr>)) \<subseteq> set (playerHand (?s\<lparr>turn := ai\<rparr>))"
          using I2' by simp
        show "(\<Union>t \<in> set (timers ?k0 @ []). set_option (pendingCard t))
            \<subseteq> set (aiHand (?s\<lparr>turn := ai\<rparr>))"
          unfolding tm using sub by simp
        show "length (filter isPlayCardAi (timers ?k0 @ [])) \<le> 1" unfolding tm by (rule le)
      qed
    next
      case (PlayCardAi d cl c)
      then have s': "fire (timers k ! n) ?s = playCard cl c False ?s" by simp
      from n have "timers k ! n \<in> set (timers k)" by simp
      with PlayCardAi I3 pendingCard_PlayCardAi [of d cl c] have cin: "c \<in> set (aiHand ?s)"
        by fastforce
      have hit: "isPlayCardAi (timers k ! n)" by (simp add: PlayCardAi)
      have none: "filter isPlayCardAi (removeAt n (timers k)) = []"
        by (rule filter_removeAt_hit [OF n hit I3'])
      show ?thesis unfolding k' s'
      proof (rule invariant_commit [OF I4'])
        show "mset (allCards (playCard cl c False ?s)) = mset createDeck"
          using playCard_ai_cards [OF cin dah, of cl] I1 by simp
        show "showSuitPicker (playCard cl c False ?s)
            \<longleftrightarrow> pendingEightCard (playCard cl c False ?s) \<noteq> None"
          using I2 by (simp add: playCard_ai_other)
        show "set_option (pendingEightCard (playCard cl c False ?s))
            \<subseteq> set (playerHand (playCard cl c False ?s))"
          using I2' by (simp add: playCard_ai_other)
        show "(\<Union>t \<in> set (timers ?k0 @ []). set_option (pendingCard t))
            \<subseteq> set (aiHand (playCard cl c False ?s))"
          unfolding tm using no_pending [OF none] by simp
        show "length (filter isPlayCardAi (timers ?k0 @ [])) \<le> 1" unfolding tm by (rule le)
      qed
    qed
  next
    case (AiEffect r)
    with ex have g: "\<not> list_ex isPlayCardAi (timers k)" by (simp split: if_splits)
    from AiEffect ex obtain s' ts where at: "aiTurn (effectRender k) r ?s = Some (s', ts)"
      and k': "k' = commit k s' ts"
      by (auto split: if_splits option.splits)
    from g have fe: "filter isPlayCardAi (timers k) = []"
      by (simp add: filter_empty_conv list_ex_iff)
    from I4 have eq: "aiHand (effectRender k) = aiHand ?s" "deck (effectRender k) = deck ?s"
      by (simp_all add: deps_def)
    note f = aiTurn_facts [OF at eq dah]
    show ?thesis unfolding k'
    proof (rule invariant_commit [OF I4])
      show "mset (allCards s') = mset createDeck" using f I1 by simp
      show "showSuitPicker s' \<longleftrightarrow> pendingEightCard s' \<noteq> None" using f I2 by simp
      show "set_option (pendingEightCard s') \<subseteq> set (playerHand s')" using f I2' by simp
      show "(\<Union>t \<in> set (timers k @ ts). set_option (pendingCard t)) \<subseteq> set (aiHand s')"
        using f no_pending [OF fe] by simp
      show "length (filter isPlayCardAi (timers k @ ts)) \<le> 1" using f fe by simp
    qed
  next
    case (Restart rnd)
    with nr show ?thesis by simp
  qed
qed

lemma run_invariant:
  "invariant k \<Longrightarrow> run es k = Some k' \<Longrightarrow> \<not> list_ex isRestart es \<Longrightarrow> invariant k'"
proof (induction es arbitrary: k)
  case Nil
  then show ?case by simp
next
  case (Cons e es)
  from Cons.prems(2) obtain k1 where e: "exec e k = Some k1" and r: "run es k1 = Some k'"
    by (auto split: option.splits)
  from Cons.prems(3) have nr: "\<not> isRestart e" and nrs: "\<not> list_ex isRestart es" by simp_all
  from invariant_exec [OF Cons.prems(1) e nr] have "invariant k1" .
  from Cons.IH [OF this r nrs] show ?case .
qed

lemma run_reachable: "reachable k \<Longrightarrow> run es k = Some k' \<Longrightarrow> reachable k'"
proof (induction es arbitrary: k)
  case Nil
  then show ?case by simp
next
  case (Cons e es)
  from Cons.prems(2) obtain k1 where e: "exec e k = Some k1" and r: "run es k1 = Some k'"
    by (auto split: option.splits)
  from reachable.step [OF Cons.prems(1) e] have "reachable k1" .
  from Cons.IH [OF this r] show ?case .
qed

text \<open>
  In a game that is not restarted the containers stay a partition of the deck: after any
  events other than a restart, from a new game, the sizes of deck, player's hand,
  opponent's hand and discard pile add up to 52, and no card id occurs twice in the four
  containers taken together.
\<close>

lemma containers_without_restart:
  assumes "run es (newGame rnd) = Some k" and "\<not> list_ex isRestart es"
  shows "length (deck (st k)) + length (playerHand (st k)) + length (aiHand (st k))
           + length (discardPile (st k)) = 52
    \<and> distinct (map cid (deck (st k) @ playerHand (st k) @ aiHand (st k) @ discardPile (st k)))"
proof -
  from run_invariant [OF invariant_newGame assms]
  have "mset (allCards (st k)) = mset createDeck"
    by (simp add: invariant_def)
  from cards_distinct [OF this] show ?thesis by (simp add: allCards_def)
qed

text \<open>
  Claim C2 does not hold of the code. \<^verbatim>\<open>initGame\<close> deals a new game but clears neither
  the delayed \<^verbatim>\<open>playCard\<close> scheduled by the opponent's effect nor the pending wild. When
  the game is restarted after the opponent has drawn the 8 of spades, the delayed
  \<^verbatim>\<open>playCard\<close> fires in the new game and appends the 8 of spades to the discard pile,
  while the new deck holds it too. When the game is restarted with the 8 of hearts
  pending, the pick of a suit appends it to the discard pile of the new game, where it is
  the initial discard already. Both states are reachable from a new game, hold 53 cards
  and hold one card id twice.
\<close>

theorem restart_duplicates_card:
  "(case run restartTimerTrace (newGame (\<lambda>i. i)) of
      None \<Rightarrow> False
    | Some k \<Rightarrow> reachable k
        \<and> length (deck (st k)) + length (playerHand (st k)) + length (aiHand (st k))
             + length (discardPile (st k)) = 53
        \<and> mkCard spades R8 \<in> set (deck (st k))
        \<and> discardPile (st k) = [mkCard spades RK, mkCard spades R8]
        \<and> \<not> distinct (map cid (deck (st k) @ playerHand (st k) @ aiHand (st k)
             @ discardPile (st k))))
   \<and> (case run restartWildTrace (newGame (\<lambda>i. i)) of
      None \<Rightarrow> False
    | Some k \<Rightarrow> reachable k
        \<and> length (deck (st k)) + length (playerHand (st k)) + length (aiHand (st k))
             + length (discardPile (st k)) = 53
        \<and> discardPile (st k) = [mkCard hearts R8, mkCard hearts R8]
        \<and> \<not> distinct (map cid (deck (st k) @ playerHand (st k) @ aiHand (st k)
             @ discardPile (st k))))"
proof (rule conjI)
  have e: "map_option (\<lambda>k. (length (deck (st k)) + length (playerHand (st k))
        + length (aiHand (st k)) + length (discardPile (st k)),
        mkCard spades R8 \<in> set (deck (st k)), discardPile (st k),
        distinct (map cid (deck (st k) @ playerHand (st k) @ aiHand (st k) @ discardPile (st k)))))
      (run restartTimerTrace (newGame (\<lambda>i. i)))
      = Some (53, True, [mkCard spades RK, mkCard spades R8], False)"
    by code_simp
  then obtain k where k: "run restartTimerTrace (newGame (\<lambda>i. i)) = Some k" by auto
  have r: "reachable k" by (rule run_reachable [OF reachable.start k])
  from e have f: "length (deck (st k)) + length (playerHand (st k)) + length (aiHand (st k))
             + length (discardPile (st k)) = 53
        \<and> mkCard spades R8 \<in> set (deck (st k))
        \<and> discardPile (st k) = [mkCard spades RK, mkCard spades R8]
        \<and> \<not> distinct (map cid (deck (st k) @ playerHand (st k) @ aiHand (st k)
             @ discardPile (st k)))"
    unfolding k option.map option.inject prod.inject by blast
  from r f show "case run restartTimerTrace (newGame (\<lambda>i. i)) of
      None \<Rightarrow> False
    | Some k \<Rightarrow> reachable k
        \<and> length (deck (st k)) + length (playerHand (st k)) + length (aiHand (st k))
             + length (discardPile (st k)) = 53
        \<and> mkCard spades R8 \<in> set (deck (st k))
        \<and> discardPile (st k) = [mkCard spades RK, mkCard spades R8]
        \<and> \<not> distinct (map cid (deck (st k) @ playerHand (st k) @ aiHand (st k)
             @ discardPile (st k)))"
    unfolding k option.case by (rule conjI)
next
  have e: "map_option (\<lambda>k. (length (deck (st k)) + length (playerHand (st k))
        + length (aiHand (st k)) + length (discardPile (st k)), discardPile (st k),
        distinct (map cid (deck (st k) @ playerHand (st k) @ aiHand (st k) @ discardPile (st k)))))
      (run restartWildTrace (newGame (\<lambda>i. i)))
      = Some (53, [mkCard hearts R8, mkCard hearts R8], False)"
    by code_simp
  then obtain k where k: "run restartWildTrace (newGame (\<lambda>i. i)) = Some k" by auto
  have r: "reachable k" by (rule run_reachable [OF reachable.start k])
  from e have f: "length (deck (st k)) + length (playerHand (st k)) + length (aiHand (st k))
             + length (discardPile (st k)) = 53
        \<and> discardPile (st k) = [mkCard hearts R8, mkCard hearts R8]
        \<and> \<not> distinct (map cid (deck (st k) @ playerHand (st k) @ aiHand (st k)
             @ discardPile (st k)))"
    unfolding k option.map option.inject prod.inject by blast
  from r f show "case run restartWildTrace (newGame (\<lambda>i. i)) of
      None \<Rightarrow> False
    | Some k \<Rightarrow> reachable k
        \<and> length (deck (st k)) + length (playerHand (st k)) + length (aiHand (st k))
             + length (discardPile (st k)) = 53
        \<and> discardPile (st k) = [mkCard hearts R8, mkCard hearts R8]
        \<and> \<not> distinct (map cid (deck (st k) @ playerHand (st k) @ aiHand (st k)
             @ discardPile (st k)))"
    unfolding k option.case by (rule conjI)
qed

section \<open>The end of the game\<close>

text \<open>
  Claim C3 does not hold of the code. The delayed \<^verbatim>\<open>playCard\<close> of a drawn card runs in
  the closure of the render before the draw, where \<^verbatim>\<open>aiHand\<close> does not yet hold the
  drawn card. When the opponent held one card before the draw, \<^verbatim>\<open>aiHand.length === 1\<close>
  holds there, and the phase becomes gameOver with the message of the opponent's win,
  although the opponent still holds that card and the player holds four: a reachable
  state with phase gameOver in which no hand is empty. The state before the opponent's
  draw is \<open>stuckState\<close>.
\<close>

theorem stale_opponent_win:
  "map_option (\<lambda>k. (phase (st k), message (st k), aiHand (st k), playerHand (st k)))
     (run staleWinTrace (newGame (\<lambda>i. i)))
   = Some (gameOver, MsgAiWins, [mkCard diamonds R3],
       [mkCard hearts R3, mkCard spades RJ, mkCard spades R10, mkCard spades R9])
   \<and> map_option st (run (butlast (butlast staleWinTrace)) (newGame (\<lambda>i. i))) = Some stuckState"
  by code_simp

end
